theory Spec2Isabelle
  imports Main
begin

section \<open>Python strings\<close>

text \<open>
  A Python \<open>str\<close> is modelled as a \<open>string\<close> whose characters are the code points
  U+0000 to U+00FF; on that range \<open>str.lower\<close> works character by character and
  \<open>str.strip\<close> removes the characters for which \<open>str.isspace\<close> holds.
\<close>

definition isspace :: "char \<Rightarrow> bool" where
  "isspace c = (of_char c \<in> set [9, 10, 11, 12, 13, 28, 29, 30, 31, 32, 133, 160 :: nat])"

definition lower_char :: "char \<Rightarrow> char" where
  "lower_char c =
     (let n = (of_char c :: nat)
      in if (65 \<le> n \<and> n \<le> 90) \<or> (192 \<le> n \<and> n \<le> 222 \<and> n \<noteq> 215)
         then char_of (n + 32) else c)"

definition py_lower :: "string \<Rightarrow> string" where
  "py_lower s = map lower_char s"

definition py_lstrip :: "string \<Rightarrow> string" where
  "py_lstrip s = dropWhile isspace s"

definition py_rstrip :: "string \<Rightarrow> string" where
  "py_rstrip s = rev (dropWhile isspace (rev s))"

definition py_strip :: "string \<Rightarrow> string" where
  "py_strip s = py_lstrip (py_rstrip s)"

text \<open>\<open>s.split(sep)\<close> for a one-character separator: never the empty list.\<close>

fun py_split :: "char \<Rightarrow> string \<Rightarrow> string list" where
  "py_split sep [] = [[]]"
| "py_split sep (c # cs) =
     (if c = sep then [] # py_split sep cs
      else (let r = py_split sep cs in (c # hd r) # tl r))"

text \<open>\<open>s.replace(c, "")\<close> for a one-character \<open>c\<close>.\<close>

definition py_delete :: "char \<Rightarrow> string \<Rightarrow> string" where
  "py_delete c s = filter (\<lambda>x. x \<noteq> c) s"

fun py_startswith :: "string \<Rightarrow> string \<Rightarrow> bool" where
  "py_startswith [] s = True"
| "py_startswith (p # ps) [] = False"
| "py_startswith (p # ps) (c # cs) = (p = c \<and> py_startswith ps cs)"

text \<open>\<open>sub in s\<close> on strings.\<close>

fun py_in :: "string \<Rightarrow> string \<Rightarrow> bool" where
  "py_in sub [] = (sub = [])"
| "py_in sub (c # cs) = (py_startswith sub (c # cs) \<or> py_in sub cs)"

definition py_endswith :: "string \<Rightarrow> string \<Rightarrow> bool" where
  "py_endswith s suf = (length suf \<le> length s \<and> drop (length s - length suf) s = suf)"

section \<open>Domain extraction\<close>

definition GENERIC_EMAIL_DOMAINS :: "string set" where
  "GENERIC_EMAIL_DOMAINS =
     {''gmail.com'', ''outlook.com'', ''hotmail.com'', ''live.com'',
      ''yahoo.com'', ''icloud.com'', ''proton.me'', ''protonmail.com'',
      ''orange.fr'', ''free.fr'', ''skynet.be'', ''telenet.be'', ''sfr.fr'',
      ''gmx.com'', ''gmx.net''}"

text \<open>The argument of \<open>extract_domain_from_email\<close>: a \<open>str\<close> or any other object.\<close>

datatype pyobj = Str string | NotStr

definition basic_cleaning :: "string \<Rightarrow> string" where
  "basic_cleaning d =
     py_delete (CHR '','') (py_delete (CHR '';'') (py_delete (CHR ''<'') (py_delete (CHR ''>'') d)))"

definition extract_domain_from_email :: "pyobj \<Rightarrow> string option" where
  "extract_domain_from_email obj =
     (case obj of
        NotStr \<Rightarrow> None
      | Str email0 \<Rightarrow>
          (let email = py_strip email0
           in if CHR ''@'' \<notin> set email then None
              else (let parts = py_split (CHR ''@'') email
                    in if length parts \<noteq> 2 then None
                       else (let domain = py_lower (py_strip (parts ! 1))
                             in if domain = [] \<or> domain \<in> GENERIC_EMAIL_DOMAINS then None
                                else (let domain' = basic_cleaning domain
                                      in if CHR ''.'' \<in> set domain' then Some domain'
                                         else None)))))"

section \<open>URL probing\<close>

text \<open>
  The part of a \<open>requests.Response\<close> that the program reads. The classifier guards
  \<open>text\<close>, \<open>headers\<close> and \<open>url\<close> against \<open>None\<close>, so each is optional here;
  header values are given by their \<open>str()\<close> rendering.
\<close>

record response =
  status_code :: int
  resp_text :: "string option"
  resp_headers :: "(string \<times> string) list option"
  resp_url :: "string option"

text \<open>An exception, by the name of its type and its \<open>str()\<close> message.\<close>

datatype exn = Exn (exn_kind: string) (exn_message: string)

text \<open>
  What \<open>requests.get(url, headers=HEADERS, timeout=10, allow_redirects=True)\<close> does:
  it returns a response, raises a \<open>requests.RequestException\<close> (any transport-level
  failure), or raises some other exception. The network is a function from the
  requested URL to that outcome.
\<close>

datatype fetch_outcome = Returns response | RaisesRequestException | Raises exn

type_synonym http_get = "string \<Rightarrow> fetch_outcome"

definition schemes :: "string list" where
  "schemes = [''https://'', ''http://'']"

definition prefixes :: "string list" where
  "prefixes = ['''', ''www.'']"

text \<open>The URLs of the two nested loops, in iteration order.\<close>

definition candidate_urls :: "string \<Rightarrow> string list" where
  "candidate_urls domain =
     concat (map (\<lambda>scheme. map (\<lambda>prefix. scheme @ prefix @ domain) prefixes) schemes)"

text \<open>
  The loop body over the remaining URLs. The first component of the result is the
  list of URLs requested, in order; the second is what the function returns or raises.
\<close>

fun try_urls :: "http_get \<Rightarrow> string list
    \<Rightarrow> string list \<times> (exn + (string option \<times> response option))" where
  "try_urls get [] = ([], Inr (None, None))"
| "try_urls get (u # us) =
     (case get u of
        Returns resp \<Rightarrow>
          if 200 \<le> status_code resp \<and> status_code resp < 400 \<and> resp_text resp \<noteq> None
          then ([u], Inr (resp_url resp, Some resp))
          else (case try_urls get us of (reqs, res) \<Rightarrow> (u # reqs, res))
      | RaisesRequestException \<Rightarrow>
          (case try_urls get us of (reqs, res) \<Rightarrow> (u # reqs, res))
      | Raises e \<Rightarrow> ([u], Inl e))"

definition guess_website_url :: "http_get \<Rightarrow> string
    \<Rightarrow> string list \<times> (exn + (string option \<times> response option))" where
  "guess_website_url get domain =
     (if domain = [] then ([], Inr (None, None))
      else try_urls get (candidate_urls domain))"

section \<open>CMS classification\<close>

text \<open>\<open>x or ""\<close> for an optional string.\<close>

definition or_empty :: "string option \<Rightarrow> string" where
  "or_empty x = (case x of None \<Rightarrow> [] | Some s \<Rightarrow> s)"

text \<open>
  The dict comprehension \<open>{k.lower(): str(v).lower() for k, v in (h or {}).items()}\<close>:
  a later item overwrites an earlier one with the same lowered key.
\<close>

definition lower_headers :: "(string \<times> string) list option \<Rightarrow> (string \<rightharpoonup> string)" where
  "lower_headers h =
     fold (\<lambda>(k, v) m. m(py_lower k \<mapsto> py_lower v))
       (case h of None \<Rightarrow> [] | Some items \<Rightarrow> items) Map.empty"

text \<open>\<open>d.get(k, "")\<close>.\<close>

definition get_or_empty :: "(string \<rightharpoonup> string) \<Rightarrow> string \<Rightarrow> string" where
  "get_or_empty d k = (case d k of None \<Rightarrow> [] | Some v \<Rightarrow> v)"

definition detect_cms_from_response :: "response option \<Rightarrow> string" where
  \<open>detect_cms_from_response resp =
     (case resp of
        None \<Rightarrow> ''Unknown / No site''
      | Some r \<Rightarrow>
          (let html = py_lower (or_empty (resp_text r));
               headers = lower_headers (resp_headers r);
               url = py_lower (or_empty (resp_url r))
           in if py_in ''cdn.shopify.com'' html
                 \<or> py_in ''shopify-checkout'' html
                 \<or> py_in ''myshopify.com'' url
                 \<or> ''x-shopify-stage'' \<in> dom headers
              then ''Shopify''
              else if py_in ''wixstatic.com'' html
                 \<or> py_in ''wix.com'' html
                 \<or> ''x-wix-request-id'' \<in> dom headers
              then ''Wix''
              else if py_in ''web.assets_frontend'' html
                 \<or> py_in ''/web/content/'' html
                 \<or> py_in ''meta name="generator" content="odoo"'' html
                 \<or> py_in ''odoo'' (get_or_empty headers ''set-cookie'')
              then ''Odoo''
              else if py_in ''/wp-content/'' html
                 \<or> py_in ''/wp-includes/'' html
                 \<or> py_in ''wp-json'' html
                 \<or> py_in ''meta name="generator" content="wordpress'' html
              then (if py_in ''woocommerce'' html then ''WordPress + WooCommerce''
                    else ''WordPress'')
              else if py_in ''prestashop'' html \<or> py_in ''powered by prestashop'' html
              then ''PrestaShop''
              else if py_in ''static1.squarespace.com'' html \<or> py_in ''squarespace.com'' html
              then ''Squarespace''
              else ''Unknown / Custom''))\<close>

section \<open>Row pipeline\<close>

text \<open>
  A spreadsheet cell: missing (\<open>pd.isna\<close> holds), or a scalar given by its \<open>str()\<close>
  rendering.
\<close>

datatype cell = NA | Val string

text \<open>\<open>"" if pd.isna(email) else str(email).strip()\<close>.\<close>

definition email_str :: "cell \<Rightarrow> string" where
  "email_str email = (case email of NA \<Rightarrow> [] | Val s \<Rightarrow> py_strip s)"

definition detect_cms_for_email_with_url :: "http_get \<Rightarrow> cell \<Rightarrow> exn + (string \<times> string)" where
  "detect_cms_for_email_with_url get email =
     (case extract_domain_from_email (Str (email_str email)) of
        None \<Rightarrow> Inr (''No domain / Generic email'', [])
      | Some domain \<Rightarrow>
          (case snd (guess_website_url get domain) of
             Inl e \<Rightarrow> Inl e
           | Inr (url, resp) \<Rightarrow>
               (case url of
                  None \<Rightarrow> Inr (''Unknown / No site'', [])
                | Some u \<Rightarrow>
                    (case resp of
                       None \<Rightarrow> Inr (''Unknown / No site'', [])
                     | Some r \<Rightarrow> Inr (detect_cms_from_response (Some r), u)))))"

text \<open>
  The \<open>try\<close>/\<open>except Exception\<close> of the loop in \<open>process_dataframe\<close>: the three values
  appended for one row.
\<close>

definition row_result :: "http_get \<Rightarrow> cell \<Rightarrow> string \<times> string \<times> string" where
  "row_result get email =
     (case detect_cms_for_email_with_url get email of
        Inr (cms, final_url) \<Rightarrow> (cms, final_url, [])
      | Inl e \<Rightarrow> (''Error'', [], exn_kind e @ '': '' @ exn_message e))"

definition row_step :: "http_get \<Rightarrow> cell
    \<Rightarrow> string list \<times> string list \<times> string list
    \<Rightarrow> string list \<times> string list \<times> string list" where
  "row_step get email acc =
     (case acc of (cms_results, urls_results, error_details) \<Rightarrow>
        (case row_result get email of (cms, final_url, detail) \<Rightarrow>
           (cms_results @ [cms], urls_results @ [final_url], error_details @ [detail])))"

section \<open>Tables\<close>

text \<open>
  A \<open>DataFrame\<close>: the length of its index and its columns in order, each a label and
  its cells.
\<close>

record dataframe =
  nrows :: nat
  columns :: "(string \<times> cell list) list"

text \<open>
  A table as \<open>read_excel\<close> gives it when the sheet has a header row: at least one
  column, distinct labels, every column as long as the index.
\<close>

definition wf_df :: "dataframe \<Rightarrow> bool" where
  "wf_df df = (columns df \<noteq> [] \<and> distinct (map fst (columns df))
     \<and> list_all (\<lambda>c. length (snd c) = nrows df) (columns df))"

definition astype_str :: "cell \<Rightarrow> string" where
  "astype_str c = (case c of NA \<Rightarrow> ''nan'' | Val s \<Rightarrow> s)"

text \<open>\<open>series.astype(str).str.contains("@", na=False).sum()\<close>.\<close>

definition at_score :: "cell list \<Rightarrow> int" where
  "at_score series = int (length (filter (\<lambda>c. CHR ''@'' \<in> set (astype_str c)) series))"

definition best_step :: "dataframe \<Rightarrow> string \<Rightarrow> string option \<times> int \<Rightarrow> string option \<times> int" where
  "best_step df col best =
     (case best of (best_col, best_score) \<Rightarrow>
        (case map_of (columns df) col of
           None \<Rightarrow> (best_col, best_score)
         | Some series \<Rightarrow>
             if at_score series > best_score then (Some col, at_score series)
             else (best_col, best_score)))"

definition find_email_column :: "dataframe \<Rightarrow> exn + string" where
  "find_email_column df =
     (let labels = map fst (columns df);
          first_column = (case labels of
                            [] \<Rightarrow> Inl (Exn ''IndexError''
                                     ''index 0 is out of bounds for axis 0 with size 0'')
                          | col # _ \<Rightarrow> Inr col)
      in case find (\<lambda>col. py_lower (py_strip col) = ''email'') labels of
           Some col \<Rightarrow> Inr col
         | None \<Rightarrow>
             (case fold (best_step df) labels (None, - 1) of (best_col, best_score) \<Rightarrow>
                (case best_col of
                   Some col \<Rightarrow> if best_score > 0 then Inr col else first_column
                 | None \<Rightarrow> first_column)))"

text \<open>\<open>df[label] = values\<close>: replaces the column of that label, or appends one.\<close>

definition setitem :: "dataframe \<Rightarrow> string \<Rightarrow> string list \<Rightarrow> exn + dataframe" where
  "setitem df label vals =
     (if length vals \<noteq> nrows df
      then Inl (Exn ''ValueError'' ''Length of values does not match length of index'')
      else Inr (df\<lparr>columns :=
             (if label \<in> set (map fst (columns df))
              then map (\<lambda>c. if fst c = label then (label, map Val vals) else c) (columns df)
              else columns df @ [(label, map Val vals)])\<rparr>))"

definition process_dataframe :: "http_get \<Rightarrow> dataframe \<Rightarrow> exn + dataframe" where
  "process_dataframe get df =
     (case find_email_column df of
        Inl e \<Rightarrow> Inl e
      | Inr email_col \<Rightarrow>
          (case map_of (columns df) email_col of
             None \<Rightarrow> Inl (Exn ''KeyError'' email_col)
           | Some emails \<Rightarrow>
               (case fold (row_step get) emails ([], [], []) of
                  (cms_results, urls_results, error_details) \<Rightarrow>
                    (case setitem df ''cms_detected'' cms_results of
                       Inl e \<Rightarrow> Inl e
                     | Inr df1 \<Rightarrow>
                         (case setitem df1 ''detected_url'' urls_results of
                            Inl e \<Rightarrow> Inl e
                          | Inr df2 \<Rightarrow> setitem df2 ''error_detail'' error_details)))))"

section \<open>File to file\<close>

text \<open>
  The spreadsheets on disk: what \<open>pd.read_excel\<close> does at each path, a table or the
  exception it raises (no file, not a spreadsheet).
\<close>

type_synonym disk = "string \<Rightarrow> exn + dataframe"

text \<open>
  What \<open>df.to_excel(path, index=False, engine="openpyxl")\<close> does at each path: the
  exception it raises (a path that cannot be written, an extension that the writer
  refuses), or \<open>None\<close> when the table is stored there.
\<close>

type_synonym writer = "string \<Rightarrow> exn option"

text \<open>
  The result is the exception that leaves the function, or the disk after the write
  together with the returned path. What a failed run leaves on disk is not part of the
  result.
\<close>

definition process_excel :: "http_get \<Rightarrow> writer \<Rightarrow> disk \<Rightarrow> string \<Rightarrow> string option
    \<Rightarrow> exn + (disk \<times> string)" where
  "process_excel get to_excel fs input_path output_path =
     (case fs input_path of
        Inl e \<Rightarrow> Inl e
      | Inr df \<Rightarrow>
          (case process_dataframe get df of
             Inl e \<Rightarrow> Inl e
           | Inr df_out \<Rightarrow>
               (let out = (case output_path of
                             Some p \<Rightarrow> p
                           | None \<Rightarrow>
                               if py_endswith (py_lower input_path) ''.xlsx''
                               then take (length input_path - 5) input_path @ ''_with_cms.xlsx''
                               else input_path @ ''_with_cms.xlsx'')
                in case to_excel out of
                     Some e \<Rightarrow> Inl e
                   | None \<Rightarrow> Inr (fs(out := Inr df_out), out))))"

section \<open>Vocabulary of the properties\<close>

text \<open>An attempt that ends the probe with a result: status in [200, 400), body not \<open>None\<close>.\<close>

definition qualifies :: "fetch_outcome \<Rightarrow> bool" where
  "qualifies out =
     (case out of
        Returns r \<Rightarrow> 200 \<le> status_code r \<and> status_code r < 400 \<and> resp_text r \<noteq> None
      | RaisesRequestException \<Rightarrow> False
      | Raises e \<Rightarrow> False)"

text \<open>
  An attempt after which the probe goes on to the next URL: a response that does not
  qualify, or a transport-level failure.
\<close>

definition passed_over :: "fetch_outcome \<Rightarrow> bool" where
  "passed_over out =
     (case out of
        Returns r \<Rightarrow> \<not> (200 \<le> status_code r \<and> status_code r < 400 \<and> resp_text r \<noteq> None)
      | RaisesRequestException \<Rightarrow> True
      | Raises e \<Rightarrow> False)"

text \<open>The lowered body, URL and headers that the marker sets are tested on.\<close>

definition html_of :: "response \<Rightarrow> string" where
  "html_of r = py_lower (or_empty (resp_text r))"

definition url_of :: "response \<Rightarrow> string" where
  "url_of r = py_lower (or_empty (resp_url r))"

definition headers_of :: "response \<Rightarrow> (string \<rightharpoonup> string)" where
  "headers_of r = lower_headers (resp_headers r)"

text \<open>The marker sets, as the specification lists them.\<close>

definition shopify_markers :: "response \<Rightarrow> bool" where
  "shopify_markers r =
     (py_in ''cdn.shopify.com'' (html_of r) \<or> py_in ''shopify-checkout'' (html_of r)
      \<or> py_in ''myshopify.com'' (url_of r) \<or> ''x-shopify-stage'' \<in> dom (headers_of r))"

definition wix_markers :: "response \<Rightarrow> bool" where
  "wix_markers r =
     (py_in ''wixstatic.com'' (html_of r) \<or> py_in ''wix.com'' (html_of r)
      \<or> ''x-wix-request-id'' \<in> dom (headers_of r))"

definition odoo_markers :: "response \<Rightarrow> bool" where
  \<open>odoo_markers r =
     (py_in ''web.assets_frontend'' (html_of r) \<or> py_in ''/web/content/'' (html_of r)
      \<or> py_in ''meta name="generator" content="odoo"'' (html_of r)
      \<or> py_in ''odoo'' (get_or_empty (headers_of r) ''set-cookie''))\<close>

definition wordpress_markers :: "response \<Rightarrow> bool" where
  \<open>wordpress_markers r =
     (py_in ''/wp-content/'' (html_of r) \<or> py_in ''/wp-includes/'' (html_of r)
      \<or> py_in ''wp-json'' (html_of r)
      \<or> py_in ''meta name="generator" content="wordpress'' (html_of r))\<close>

definition prestashop_markers :: "response \<Rightarrow> bool" where
  "prestashop_markers r =
     (py_in ''prestashop'' (html_of r) \<or> py_in ''powered by prestashop'' (html_of r))"

definition squarespace_markers :: "response \<Rightarrow> bool" where
  "squarespace_markers r =
     (py_in ''static1.squarespace.com'' (html_of r) \<or> py_in ''squarespace.com'' (html_of r))"

definition wordpress_label :: "response \<Rightarrow> string" where
  "wordpress_label r =
     (if py_in ''woocommerce'' (html_of r) then ''WordPress + WooCommerce'' else ''WordPress'')"

text \<open>The priority order of the specification: the first entry whose test holds wins.\<close>

definition priority_table :: "((response \<Rightarrow> bool) \<times> (response \<Rightarrow> string)) list" where
  "priority_table =
     [(shopify_markers, \<lambda>r. ''Shopify''),
      (wix_markers, \<lambda>r. ''Wix''),
      (odoo_markers, \<lambda>r. ''Odoo''),
      (wordpress_markers, wordpress_label),
      (prestashop_markers, \<lambda>r. ''PrestaShop''),
      (squarespace_markers, \<lambda>r. ''Squarespace'')]"

definition first_match :: "response \<Rightarrow> string" where
  "first_match r =
     (case find (\<lambda>entry. fst entry r) priority_table of
        Some entry \<Rightarrow> snd entry r
      | None \<Rightarrow> ''Unknown / Custom'')"

text \<open>The nine labels of the classifier.\<close>

definition classifier_labels :: "string set" where
  "classifier_labels =
     {''Unknown / No site'', ''Shopify'', ''Wix'', ''Odoo'', ''WordPress + WooCommerce'',
      ''WordPress'', ''PrestaShop'', ''Squarespace'', ''Unknown / Custom''}"

text \<open>Row \<open>i\<close> of a table: each label with its cell at that position.\<close>

definition df_row :: "dataframe \<Rightarrow> nat \<Rightarrow> (string \<times> cell) list" where
  "df_row df i = map (\<lambda>c. (fst c, snd c ! i)) (columns df)"

text \<open>The column \<open>cms_detected\<close> of the processed table, when processing returns.\<close>

definition cms_column :: "http_get \<Rightarrow> dataframe \<Rightarrow> cell list option" where
  "cms_column get df =
     (case process_dataframe get df of
        Inl e \<Rightarrow> None
      | Inr out \<Rightarrow> map_of (columns out) ''cms_detected'')"

text \<open>The path a run returns, or the exception that leaves it.\<close>

definition returned_path :: "exn + (disk \<times> string) \<Rightarrow> exn + string" where
  "returned_path res = (case res of Inl e \<Rightarrow> Inl e | Inr written \<Rightarrow> Inr (snd written))"

section \<open>Sample inputs\<close>

definition shop_page :: response where
  "shop_page =
     \<lparr>status_code = 200,
      resp_text = Some ''<script src=//cdn.shopify.com/s.js></script> /wp-content/ woocommerce'',
      resp_headers = Some [(''Content-Type'', ''text/html'')],
      resp_url = Some ''https://www.shop-example.com/''\<rparr>"

definition blog_page :: response where
  "blog_page =
     \<lparr>status_code = 200,
      resp_text = Some ''<link href=/WP-Content/themes/a.css> WooCommerce'',
      resp_headers = None,
      resp_url = Some ''http://blog.example.net/''\<rparr>"

definition error_page :: response where
  "error_page =
     \<lparr>status_code = 503, resp_text = Some ''unavailable'', resp_headers = None,
      resp_url = Some ''https://shop-example.com/''\<rparr>"

text \<open>
  A network where \<open>shop-example.com\<close> answers 503 on the bare name and serves a shop
  on \<open>www\<close>, \<open>blog.example.net\<close> answers over plain http only, a request to
  \<open>boom.example.org\<close> raises outside \<open>requests\<close>, and nothing else is reachable.
\<close>

definition sample_net :: http_get where
  "sample_net u =
     (if u = ''https://shop-example.com'' then Returns error_page
      else if u = ''https://www.shop-example.com'' then Returns shop_page
      else if u = ''http://blog.example.net'' then Returns blog_page
      else if u = ''https://boom.example.org''
        then Raises (Exn ''UnicodeError'' ''label too long'')
      else RaisesRequestException)"

definition sample_df :: dataframe where
  "sample_df =
     \<lparr>nrows = 5,
      columns =
        [(''name'', [Val ''A'', Val ''B'', NA, Val ''D'', Val ''E'']),
         ('' Email '',
          [Val ''a@gmail.com'', Val '' x@boom.example.org'', NA,
           Val ''c@shop-example.com'', Val ''b@example.com''])]\<rparr>"

text \<open>
  Two tables with the same first row and no column named \<open>email\<close>. They differ in the
  second row only: column \<open>a\<close> has more cells with an \<open>@\<close> in the first table, column
  \<open>b\<close> in the second.
\<close>

definition table_a :: dataframe where
  "table_a =
     \<lparr>nrows = 2,
      columns =
        [(''a'', [Val ''c@shop-example.com'', Val ''x@y.z'']),
         (''b'', [Val ''b@example.com'', Val ''none''])]\<rparr>"

definition table_b :: dataframe where
  "table_b =
     \<lparr>nrows = 2,
      columns =
        [(''a'', [Val ''c@shop-example.com'', Val ''none'']),
         (''b'', [Val ''b@example.com'', Val ''x@y.z''])]\<rparr>"

text \<open>The table of an empty sheet: no column, no row.\<close>

definition empty_table :: dataframe where
  "empty_table = \<lparr>nrows = 0, columns = []\<rparr>"

definition sample_disk :: disk where
  "sample_disk p =
     (if p = ''Leads.XLSX'' \<or> p = ''data'' then Inr sample_df
      else if p = ''empty.xlsx'' then Inr empty_table
      else Inl (Exn ''FileNotFoundError'' ''No such file or directory''))"

text \<open>A writer that stores every table, and one that can write nowhere.\<close>

definition writes_all :: writer where
  "writes_all p = None"

definition writes_nothing :: writer where
  "writes_nothing p = Some (Exn ''PermissionError'' ''Permission denied'')"

section \<open>Facts about the string operations\<close>

lemma dropWhile_keep_after:
  "\<not> P c \<Longrightarrow> dropWhile P (xs @ c # ys) = dropWhile P xs @ c # ys"
  by (induction xs) auto

lemma not_isspace_at: "\<not> isspace (CHR ''@'')"
  by (simp add: isspace_def)

lemma py_lstrip_at: "py_lstrip (a @ CHR ''@'' # b) = py_lstrip a @ CHR ''@'' # b"
  by (simp add: py_lstrip_def dropWhile_keep_after not_isspace_at)

lemma py_rstrip_at: "py_rstrip (a @ CHR ''@'' # b) = a @ CHR ''@'' # py_rstrip b"
  by (simp add: py_rstrip_def dropWhile_keep_after not_isspace_at)

lemma py_strip_at: "py_strip (a @ CHR ''@'' # b) = py_lstrip a @ CHR ''@'' # py_rstrip b"
  by (simp add: py_strip_def py_rstrip_at py_lstrip_at)

lemma py_rstrip_idem: "py_rstrip (py_rstrip s) = py_rstrip s"
  by (simp add: py_rstrip_def)

lemma py_strip_rstrip: "py_strip (py_rstrip s) = py_strip s"
  by (simp add: py_strip_def py_rstrip_idem)

lemma set_py_lstrip: "set (py_lstrip s) \<subseteq> set s"
  unfolding py_lstrip_def by (auto dest: set_dropWhileD)

lemma set_py_rstrip: "set (py_rstrip s) \<subseteq> set s"
  unfolding py_rstrip_def by (auto dest: set_dropWhileD)

lemma py_split_no_sep: "sep \<notin> set s \<Longrightarrow> py_split sep s = [s]"
  by (induction s) auto

lemma py_split_first: "sep \<notin> set a \<Longrightarrow> py_split sep (a @ sep # b) = a # py_split sep b"
  by (induction a) auto

lemma py_split_length: "length (py_split sep s) = Suc (count_list s sep)"
  by (induction s) (auto simp: Let_def)

lemma basic_cleaning_generic: "d \<in> GENERIC_EMAIL_DOMAINS \<Longrightarrow> basic_cleaning d = d"
  unfolding GENERIC_EMAIL_DOMAINS_def basic_cleaning_def py_delete_def by auto

lemma basic_cleaning_Nil: "basic_cleaning [] = []"
  by (simp add: basic_cleaning_def py_delete_def)

lemma dropWhile_skip:
  "\<forall>x \<in> set xs. P x \<Longrightarrow> dropWhile P (xs @ ys) = dropWhile P ys"
  by (induction xs) auto

lemma py_strip_core:
  assumes ws: "\<forall>c \<in> set (ws1 @ ws2). isspace c"
    and core: "core \<noteq> []" "\<not> isspace (hd core)" "\<not> isspace (last core)"
  shows "py_strip (ws1 @ core @ ws2) = core"
proof -
  have w1: "\<forall>x \<in> set ws1. isspace x" and w2: "\<forall>x \<in> set (rev ws2). isspace x"
    using ws by auto
  obtain c cs where rc: "rev core = c # cs" "\<not> isspace c"
    using core by (cases "rev core") (auto simp: last_rev [symmetric] hd_rev)
  have "rev (ws1 @ core @ ws2) = rev ws2 @ (rev core @ rev ws1)" by simp
  then have "dropWhile isspace (rev (ws1 @ core @ ws2))
      = dropWhile isspace (rev core @ rev ws1)"
    using dropWhile_skip [OF w2] by simp
  also have "\<dots> = rev core @ rev ws1" using rc by simp
  finally have r: "py_rstrip (ws1 @ core @ ws2) = ws1 @ core"
    by (simp add: py_rstrip_def)
  obtain d ds where c: "core = d # ds" "\<not> isspace d"
    using core by (cases core) auto
  have "dropWhile isspace (ws1 @ core) = dropWhile isspace core"
    using dropWhile_skip [OF w1] by simp
  also have "\<dots> = core" using c by simp
  finally show ?thesis by (simp add: py_strip_def py_lstrip_def r)
qed

lemma basic_cleaning_filter:
  "basic_cleaning d = filter (\<lambda>c. c \<notin> {CHR ''>'', CHR ''<'', CHR '';'', CHR '',''}) d"
  by (induction d) (auto simp: basic_cleaning_def py_delete_def)

lemma extract_domain_at:
  assumes "CHR ''@'' \<notin> set a" and "CHR ''@'' \<notin> set b"
    and "CHR ''.'' \<in> set (basic_cleaning (py_lower (py_strip b)))"
    and "basic_cleaning (py_lower (py_strip b)) \<notin> GENERIC_EMAIL_DOMAINS"
  shows "extract_domain_from_email (Str (a @ CHR ''@'' # b))
           = Some (basic_cleaning (py_lower (py_strip b)))"
proof -
  let ?d = "py_lower (py_strip b)"
  have a': "CHR ''@'' \<notin> set (py_lstrip a)" using assms(1) set_py_lstrip by blast
  have b': "CHR ''@'' \<notin> set (py_rstrip b)" using assms(2) set_py_rstrip by blast
  have parts: "py_split (CHR ''@'') (py_lstrip a @ CHR ''@'' # py_rstrip b)
      = [py_lstrip a, py_rstrip b]"
    by (simp add: py_split_first [OF a'] py_split_no_sep [OF b'])
  have ne: "?d \<noteq> []" using assms(3) basic_cleaning_Nil by force
  have ng: "?d \<notin> GENERIC_EMAIL_DOMAINS" using assms(4) basic_cleaning_generic by metis
  show ?thesis
    using assms(3) ne ng
    by (simp add: extract_domain_from_email_def py_strip_at parts py_strip_rstrip Let_def)
qed


section \<open>Domain extraction: properties\<close>

text \<open>
  C7. Take a string \<open>a@b\<close> with no further \<open>@\<close> in \<open>a\<close> or \<open>b\<close>, where \<open>b\<close> is a
  core between two runs of whitespace and the core neither starts nor ends with
  whitespace. When the core contains a dot and the core, lowercased character by
  character and with every \<open>>\<close>, \<open><\<close>, \<open>;\<close> and \<open>,\<close> removed, is not a
  public-provider entry, the function returns exactly that lowercased, cleaned core.
  In particular \<open>contact@MonSite.COM;\<close> yields \<open>monsite.com\<close>; further instances
  trim a leading blank, a tab and a newline, remove \<open>,\<close> and \<open><\<close>, and lowercase a
  letter outside ASCII.
\<close>

theorem extract_domain_cleaned:
  "(\<forall>a ws1 core ws2.
       CHR ''@'' \<notin> set a \<and> CHR ''@'' \<notin> set (ws1 @ core @ ws2)
       \<and> (\<forall>c \<in> set (ws1 @ ws2). isspace c)
       \<and> core \<noteq> [] \<and> \<not> isspace (hd core) \<and> \<not> isspace (last core)
       \<and> CHR ''.'' \<in> set core
       \<and> filter (\<lambda>c. c \<notin> {CHR ''>'', CHR ''<'', CHR '';'', CHR '',''}) (map lower_char core)
           \<notin> GENERIC_EMAIL_DOMAINS
     \<longrightarrow> extract_domain_from_email (Str (a @ CHR ''@'' # ws1 @ core @ ws2))
           = Some (filter (\<lambda>c. c \<notin> {CHR ''>'', CHR ''<'', CHR '';'', CHR '',''})
                     (map lower_char core)))
   \<and> extract_domain_from_email (Str ''contact@MonSite.COM;'') = Some ''monsite.com''
   \<and> extract_domain_from_email (Str ''a@ b.com'') = Some ''b.com''
   \<and> extract_domain_from_email (Str ''a@b.com,<'') = Some ''b.com''
   \<and> extract_domain_from_email (Str (''a@'' @ CHR 0x09 # ''b.com'' @ [CHR 0x0A])) = Some ''b.com''
   \<and> extract_domain_from_email (Str (''a@'' @ CHR 0xC9 # ''cole.fr''))
       = Some (CHR 0xE9 # ''cole.fr'')"
proof (intro conjI allI impI)
  fix a ws1 core ws2
  let ?clean = "filter (\<lambda>c. c \<notin> {CHR ''>'', CHR ''<'', CHR '';'', CHR '',''})"
  assume h: "CHR ''@'' \<notin> set a \<and> CHR ''@'' \<notin> set (ws1 @ core @ ws2)
       \<and> (\<forall>c \<in> set (ws1 @ ws2). isspace c)
       \<and> core \<noteq> [] \<and> \<not> isspace (hd core) \<and> \<not> isspace (last core)
       \<and> CHR ''.'' \<in> set core
       \<and> ?clean (map lower_char core) \<notin> GENERIC_EMAIL_DOMAINS"
  have s: "py_strip (ws1 @ core @ ws2) = core"
    using h by (intro py_strip_core) simp_all
  have d: "basic_cleaning (py_lower (py_strip (ws1 @ core @ ws2))) = ?clean (map lower_char core)"
    by (simp add: s basic_cleaning_filter py_lower_def)
  have dot: "lower_char (CHR ''.'') = CHR ''.''" by code_simp
  have "CHR ''.'' \<in> set (?clean (map lower_char core))"
    using h dot by force
  with h show "extract_domain_from_email (Str (a @ CHR ''@'' # ws1 @ core @ ws2))
           = Some (?clean (map lower_char core))"
    using extract_domain_at [of a "ws1 @ core @ ws2"] unfolding d by simp
qed code_simp+

theorem extract_domain_cleaned_witness:
  "extract_domain_from_email (Str ''  Sales@ <Shop-Example.COM>, '') = Some ''shop-example.com''"
proof -
  have sp: "isspace (CHR '' '')" by (simp add: isspace_def)
  have c: "filter (\<lambda>c. c \<notin> {CHR ''>'', CHR ''<'', CHR '';'', CHR '',''})
      (map lower_char ''<Shop-Example.COM>,'') = ''shop-example.com''"
    by code_simp
  have h: "CHR ''@'' \<notin> set ''  Sales'' \<and> CHR ''@'' \<notin> set ('' '' @ ''<Shop-Example.COM>,'' @ '' '')
       \<and> (\<forall>c \<in> set ('' '' @ '' ''). isspace c)
       \<and> ''<Shop-Example.COM>,'' \<noteq> [] \<and> \<not> isspace (hd ''<Shop-Example.COM>,'')
       \<and> \<not> isspace (last ''<Shop-Example.COM>,'')
       \<and> CHR ''.'' \<in> set ''<Shop-Example.COM>,''
       \<and> filter (\<lambda>c. c \<notin> {CHR ''>'', CHR ''<'', CHR '';'', CHR '',''})
             (map lower_char ''<Shop-Example.COM>,'') \<notin> GENERIC_EMAIL_DOMAINS"
    unfolding c by (simp add: sp isspace_def GENERIC_EMAIL_DOMAINS_def)
  from extract_domain_cleaned [THEN conjunct1, rule_format, OF h]
  show ?thesis unfolding c by simp
qed

text \<open>
  C1. The public-provider test runs on the trimmed, lowercased part before the
  characters \<open>>\<close>, \<open><\<close>, \<open>;\<close> and \<open>,\<close> are removed. For \<open>user@gmail.com;\<close> the
  cleaned part is \<open>gmail.com\<close>, an entry of the public-provider set, and the function
  returns it instead of no domain.
\<close>

theorem extract_domain_generic_after_cleaning:
  "extract_domain_from_email (Str ''user@gmail.com;'') = Some ''gmail.com''
   \<and> basic_cleaning (py_lower (py_strip ''gmail.com;'')) = ''gmail.com''
   \<and> ''gmail.com'' \<in> GENERIC_EMAIL_DOMAINS"
  by (intro conjI) (code_simp, code_simp, simp add: GENERIC_EMAIL_DOMAINS_def)

section \<open>URL probing: properties\<close>

lemma candidate_urls_eq:
  "candidate_urls domain =
     [''https://'' @ domain, ''https://www.'' @ domain,
      ''http://'' @ domain, ''http://www.'' @ domain]"
  by (simp add: candidate_urls_def schemes_def prefixes_def)

lemma try_urls_passed_over:
  "\<forall>u \<in> set pre. passed_over (get u) \<Longrightarrow>
     try_urls get (pre @ rest) = (pre @ fst (try_urls get rest), snd (try_urls get rest))"
  by (induction pre) (auto simp: passed_over_def split: fetch_outcome.splits prod.splits)

lemma try_urls_qualifies:
  "get u = Returns r \<Longrightarrow> qualifies (Returns r) \<Longrightarrow>
     try_urls get (u # us) = ([u], Inr (resp_url r, Some r))"
  by (simp add: qualifies_def)

lemma try_urls_first_qualifying:
  assumes i: "i < length urls"
    and before: "\<forall>j<i. passed_over (get (urls ! j))"
    and hit: "get (urls ! i) = Returns r" "qualifies (Returns r)"
  shows "try_urls get urls = (take (Suc i) urls, Inr (resp_url r, Some r))"
proof -
  have split: "urls = take i urls @ urls ! i # drop (Suc i) urls"
    using i by (rule id_take_nth_drop)
  have pre: "\<forall>u \<in> set (take i urls). passed_over (get u)"
    using before i by (auto simp: in_set_conv_nth)
  have tail: "try_urls get (urls ! i # drop (Suc i) urls) = ([urls ! i], Inr (resp_url r, Some r))"
    using hit by (rule try_urls_qualifies)
  have "try_urls get (take i urls @ urls ! i # drop (Suc i) urls)
      = (take i urls @ [urls ! i], Inr (resp_url r, Some r))"
    unfolding try_urls_passed_over [OF pre] tail by simp
  moreover have "take i urls @ [urls ! i] = take (Suc i) urls"
    using i by (simp add: take_Suc_conv_app_nth)
  ultimately show ?thesis using split by metis
qed

lemma try_urls_raises:
  assumes i: "i < length urls"
    and before: "\<forall>j<i. passed_over (get (urls ! j))"
    and hit: "get (urls ! i) = Raises e"
  shows "try_urls get urls = (take (Suc i) urls, Inl e)"
proof -
  have split: "urls = take i urls @ urls ! i # drop (Suc i) urls"
    using i by (rule id_take_nth_drop)
  have pre: "\<forall>u \<in> set (take i urls). passed_over (get u)"
    using before i by (auto simp: in_set_conv_nth)
  have tail: "try_urls get (urls ! i # drop (Suc i) urls) = ([urls ! i], Inl e)"
    using hit by simp
  have "try_urls get (take i urls @ urls ! i # drop (Suc i) urls)
      = (take i urls @ [urls ! i], Inl e)"
    unfolding try_urls_passed_over [OF pre] tail by simp
  moreover have "take i urls @ [urls ! i] = take (Suc i) urls"
    using i by (simp add: take_Suc_conv_app_nth)
  ultimately show ?thesis using split by metis
qed

lemma try_urls_none_qualifying:
  assumes "\<forall>j<length urls. passed_over (get (urls ! j))"
  shows "try_urls get urls = (urls, Inr (None, None))"
proof -
  have "\<forall>u \<in> set urls. passed_over (get u)"
    using assms by (auto simp: in_set_conv_nth)
  from try_urls_passed_over [OF this, of "[]"] show ?thesis by simp
qed

lemma try_urls_prefix:
  "\<exists>n. n \<le> length urls \<and> (urls \<noteq> [] \<longrightarrow> 0 < n) \<and> fst (try_urls get urls) = take n urls"
proof (induction urls)
  case Nil
  then show ?case by simp
next
  case (Cons u us)
  then obtain n where n: "n \<le> length us" "fst (try_urls get us) = take n us" by blast
  show ?case
  proof (cases "try_urls get (u # us) = (u # fst (try_urls get us), snd (try_urls get us))")
    case True
    then have "fst (try_urls get (u # us)) = take (Suc n) (u # us)" using n by simp
    then show ?thesis using n(1) by (intro exI [of _ "Suc n"]) simp
  next
    case False
    then have "fst (try_urls get (u # us)) = take 1 (u # us)"
      by (auto split: fetch_outcome.splits prod.splits if_splits)
    then show ?thesis by (intro exI [of _ 1]) simp
  qed
qed

text \<open>
  C2. For a non-empty domain the candidates are \<open>https://domain\<close>,
  \<open>https://www.domain\<close>, \<open>http://domain\<close>, \<open>http://www.domain\<close> in that order,
  and the URLs requested are always a non-empty initial part of that list. When attempt
  \<open>i\<close> is the first that qualifies (status in [200, 400), body not \<open>None\<close>) and every
  earlier attempt was a non-qualifying response or a transport-level failure, exactly
  the first \<open>i + 1\<close> candidates are requested and the result is that response with its
  final URL. When all four attempts are non-qualifying responses or transport-level
  failures, all four are requested and the result is \<open>(None, None)\<close>. When attempt
  \<open>i\<close> raises an exception that is not a \<open>RequestException\<close> and every earlier
  attempt was a non-qualifying response or a transport-level failure, exactly the first
  \<open>i + 1\<close> candidates are requested and the function raises that exception.
\<close>

theorem guess_website_url_order:
  "domain \<noteq> [] \<Longrightarrow>
     candidate_urls domain =
       [''https://'' @ domain, ''https://www.'' @ domain,
        ''http://'' @ domain, ''http://www.'' @ domain]
     \<and> (\<forall>i r. i < 4 \<and> (\<forall>j<i. passed_over (get (candidate_urls domain ! j)))
            \<and> get (candidate_urls domain ! i) = Returns r \<and> qualifies (Returns r)
          \<longrightarrow> guess_website_url get domain
              = (take (Suc i) (candidate_urls domain), Inr (resp_url r, Some r)))
     \<and> ((\<forall>j<4. passed_over (get (candidate_urls domain ! j)))
          \<longrightarrow> guess_website_url get domain = (candidate_urls domain, Inr (None, None)))
     \<and> (\<exists>n. 0 < n \<and> n \<le> 4
          \<and> fst (guess_website_url get domain) = take n (candidate_urls domain))
     \<and> (\<forall>i e. i < 4 \<and> (\<forall>j<i. passed_over (get (candidate_urls domain ! j)))
            \<and> get (candidate_urls domain ! i) = Raises e
          \<longrightarrow> guess_website_url get domain = (take (Suc i) (candidate_urls domain), Inl e))"
proof (intro conjI allI impI)
  fix i e
  assume d: "domain \<noteq> []"
    and h: "i < 4 \<and> (\<forall>j<i. passed_over (get (candidate_urls domain ! j)))
            \<and> get (candidate_urls domain ! i) = Raises e"
  have len: "length (candidate_urls domain) = 4" by (simp add: candidate_urls_eq)
  have "try_urls get (candidate_urls domain) = (take (Suc i) (candidate_urls domain), Inl e)"
    using h len by (intro try_urls_raises) auto
  then show "guess_website_url get domain = (take (Suc i) (candidate_urls domain), Inl e)"
    using d by (simp add: guess_website_url_def)
next
  show "candidate_urls domain =
       [''https://'' @ domain, ''https://www.'' @ domain,
        ''http://'' @ domain, ''http://www.'' @ domain]"
    by (rule candidate_urls_eq)
next
  assume d: "domain \<noteq> []"
  have len: "length (candidate_urls domain) = 4" by (simp add: candidate_urls_eq)
  have ne: "candidate_urls domain \<noteq> []" by (simp add: candidate_urls_eq)
  from try_urls_prefix [of "candidate_urls domain" get] ne len
  show "\<exists>n. 0 < n \<and> n \<le> 4
      \<and> fst (guess_website_url get domain) = take n (candidate_urls domain)"
    using d by (auto simp: guess_website_url_def)
next
  fix i r
  assume d: "domain \<noteq> []"
    and h: "i < 4 \<and> (\<forall>j<i. passed_over (get (candidate_urls domain ! j)))
            \<and> get (candidate_urls domain ! i) = Returns r \<and> qualifies (Returns r)"
  have len: "length (candidate_urls domain) = 4" by (simp add: candidate_urls_eq)
  have "try_urls get (candidate_urls domain)
      = (take (Suc i) (candidate_urls domain), Inr (resp_url r, Some r))"
    using h len by (intro try_urls_first_qualifying) auto
  then show "guess_website_url get domain
      = (take (Suc i) (candidate_urls domain), Inr (resp_url r, Some r))"
    using d by (simp add: guess_website_url_def)
next
  assume d: "domain \<noteq> []"
    and h: "\<forall>j<4. passed_over (get (candidate_urls domain ! j))"
  have len: "length (candidate_urls domain) = 4" by (simp add: candidate_urls_eq)
  have "try_urls get (candidate_urls domain) = (candidate_urls domain, Inr (None, None))"
    using h len by (intro try_urls_none_qualifying) auto
  then show "guess_website_url get domain = (candidate_urls domain, Inr (None, None))"
    using d by (simp add: guess_website_url_def)
qed

lemma sample_passed: "passed_over (sample_net ''https://shop-example.com'')"
  by (simp add: sample_net_def passed_over_def error_page_def)

theorem guess_website_url_order_witness:
  "guess_website_url sample_net ''shop-example.com''
     = ([''https://shop-example.com'', ''https://www.shop-example.com''],
        Inr (Some ''https://www.shop-example.com/'', Some shop_page))
   \<and> guess_website_url sample_net ''example.com''
     = ([''https://example.com'', ''https://www.example.com'',
         ''http://example.com'', ''http://www.example.com''], Inr (None, None))"
proof -
  have d: "''shop-example.com'' \<noteq> []" by simp
  have c: "candidate_urls ''shop-example.com''
      = [''https://shop-example.com'', ''https://www.shop-example.com'',
         ''http://shop-example.com'', ''http://www.shop-example.com'']"
    by (simp add: candidate_urls_eq)
  have h: "(1::nat) < 4 \<and> (\<forall>j<1. passed_over (sample_net (candidate_urls ''shop-example.com'' ! j)))
      \<and> sample_net (candidate_urls ''shop-example.com'' ! 1) = Returns shop_page
      \<and> qualifies (Returns shop_page)"
    by (simp add: c sample_net_def passed_over_def qualifies_def error_page_def shop_page_def)
  have first: "guess_website_url sample_net ''shop-example.com''
     = ([''https://shop-example.com'', ''https://www.shop-example.com''],
        Inr (Some ''https://www.shop-example.com/'', Some shop_page))"
    using guess_website_url_order [OF d, of sample_net, THEN conjunct2, THEN conjunct1,
        rule_format, OF h]
    by (simp add: c shop_page_def)
  have d2: "''example.com'' \<noteq> []" by simp
  have c2: "candidate_urls ''example.com''
      = [''https://example.com'', ''https://www.example.com'',
         ''http://example.com'', ''http://www.example.com'']"
    by (simp add: candidate_urls_eq)
  have h2: "\<forall>j<4. passed_over (sample_net (candidate_urls ''example.com'' ! j))"
  proof (intro allI impI)
    fix j :: nat assume "j < 4"
    then consider "j = 0" | "j = 1" | "j = 2" | "j = 3" by linarith
    then show "passed_over (sample_net (candidate_urls ''example.com'' ! j))"
      by cases (simp_all add: c2 sample_net_def passed_over_def)
  qed
  have second: "guess_website_url sample_net ''example.com''
     = ([''https://example.com'', ''https://www.example.com'',
         ''http://example.com'', ''http://www.example.com''], Inr (None, None))"
    using guess_website_url_order [OF d2, of sample_net, THEN conjunct2, THEN conjunct2,
        THEN conjunct1, THEN mp, OF h2]
    by (simp add: c2)
  from first second show ?thesis by simp
qed

text \<open>
  For \<open>boom.example.org\<close> none of the four attempts qualifies, yet the probe does not
  return \<open>(None, None)\<close>: the first request raises outside \<open>requests\<close>, the exception
  leaves the function and the other three URLs are never requested.
\<close>

theorem guess_website_url_raises_counterexample:
  "\<not> qualifies (sample_net ''https://boom.example.org'')
   \<and> \<not> qualifies (sample_net ''https://www.boom.example.org'')
   \<and> \<not> qualifies (sample_net ''http://boom.example.org'')
   \<and> \<not> qualifies (sample_net ''http://www.boom.example.org'')
   \<and> guess_website_url sample_net ''boom.example.org''
       = ([''https://boom.example.org''], Inl (Exn ''UnicodeError'' ''label too long''))"
  by (simp add: qualifies_def sample_net_def guess_website_url_def candidate_urls_eq)

section \<open>CMS classification: properties\<close>

lemma py_startswith_iff: "py_startswith p s \<longleftrightarrow> (\<exists>q. s = p @ q)"
  by (induction p s rule: py_startswith.induct) auto

lemma py_in_iff: "py_in sub s \<longleftrightarrow> (\<exists>p q. s = p @ sub @ q)"
proof (induction s)
  case Nil
  then show ?case by simp
next
  case (Cons c cs)
  show ?case
  proof
    assume "py_in sub (c # cs)"
    then consider "py_startswith sub (c # cs)" | "py_in sub cs" by auto
    then show "\<exists>p q. c # cs = p @ sub @ q"
    proof cases
      case 1
      then obtain q where "c # cs = sub @ q" using py_startswith_iff by blast
      then have "c # cs = [] @ sub @ q" by simp
      then show ?thesis by blast
    next
      case 2
      then obtain p q where "cs = p @ sub @ q" using Cons.IH by blast
      then have "c # cs = (c # p) @ sub @ q" by simp
      then show ?thesis by blast
    qed
  next
    assume "\<exists>p q. c # cs = p @ sub @ q"
    then obtain p q where pq: "c # cs = p @ sub @ q" by blast
    show "py_in sub (c # cs)"
    proof (cases p)
      case Nil
      then have "py_startswith sub (c # cs)" using pq py_startswith_iff by auto
      then show ?thesis by simp
    next
      case (Cons a p')
      then have "cs = p' @ sub @ q" using pq by simp
      then have "py_in sub cs" using Cons.IH by blast
      then show ?thesis by simp
    qed
  qed
qed

lemma py_in_lower:
  assumes "py_in sub s" and "py_lower sub = sub"
  shows "py_in sub (py_lower s)"
proof -
  obtain p q where "s = p @ sub @ q" using assms(1) py_in_iff by blast
  then have "py_lower s = py_lower p @ sub @ py_lower q"
    using assms(2) by (simp add: py_lower_def)
  then show ?thesis using py_in_iff by blast
qed

lemmas marker_defs =
  shopify_markers_def wix_markers_def odoo_markers_def wordpress_markers_def
  prestashop_markers_def squarespace_markers_def wordpress_label_def
  html_of_def url_of_def headers_of_def

lemma detect_cms_first_match: "detect_cms_from_response (Some r) = first_match r"
  by (simp add: detect_cms_from_response_def first_match_def priority_table_def
      marker_defs Let_def)

lemma detect_cms_some_labels:
  "detect_cms_from_response (Some r) \<in>
     {''Shopify'', ''Wix'', ''Odoo'', ''WordPress + WooCommerce'',
      ''WordPress'', ''PrestaShop'', ''Squarespace'', ''Unknown / Custom''}"
  by (simp add: detect_cms_from_response_def Let_def)

lemma detect_cms_shopify_body:
  assumes "resp_text r = Some body" and "py_in ''cdn.shopify.com'' body"
  shows "detect_cms_from_response (Some r) = ''Shopify''"
proof -
  have "py_lower ''cdn.shopify.com'' = ''cdn.shopify.com''" by code_simp
  with assms(2) have "py_in ''cdn.shopify.com'' (py_lower body)" by (rule py_in_lower)
  then show ?thesis using assms(1)
    by (simp add: detect_cms_from_response_def or_empty_def Let_def)
qed

text \<open>
  C3. No response gives the label \<open>Unknown / No site\<close>. For a response the label is
  that of the first entry of the priority table Shopify, Wix, Odoo, WordPress,
  PrestaShop, Squarespace whose markers match, and \<open>Unknown / Custom\<close> when none
  matches. A body that contains \<open>cdn.shopify.com\<close> gives \<open>Shopify\<close> whatever else it
  contains.
\<close>

theorem detect_cms_priority:
  "detect_cms_from_response None = ''Unknown / No site''
   \<and> (\<forall>r. detect_cms_from_response (Some r) = first_match r)
   \<and> (\<forall>r body. resp_text r = Some body \<and> py_in ''cdn.shopify.com'' body
        \<longrightarrow> detect_cms_from_response (Some r) = ''Shopify'')"
  using detect_cms_first_match detect_cms_shopify_body
  by (simp add: detect_cms_from_response_def)

theorem detect_cms_priority_witness:
  "py_in ''/wp-content/'' (html_of shop_page)
   \<and> detect_cms_from_response (Some shop_page) = ''Shopify''"
proof -
  have h: "resp_text shop_page
        = Some ''<script src=//cdn.shopify.com/s.js></script> /wp-content/ woocommerce''
      \<and> py_in ''cdn.shopify.com''
          ''<script src=//cdn.shopify.com/s.js></script> /wp-content/ woocommerce''"
    by (simp add: shop_page_def)
  have wp: "py_in ''/wp-content/'' (html_of shop_page)" by code_simp
  from detect_cms_priority [THEN conjunct2, THEN conjunct2, rule_format, OF h] wp
  show ?thesis by simp
qed

text \<open>The label for no response is spelled with spaces around the slash.\<close>

theorem detect_cms_spec_label_counterexample:
  "detect_cms_from_response None \<noteq> ''Unknown/No site''"
  by (simp add: detect_cms_from_response_def)

text \<open>
  C8. When none of the Shopify, Wix and Odoo markers matches and a WordPress marker
  matches the lowered body, the label is \<open>WordPress + WooCommerce\<close> if the lowered
  body contains \<open>woocommerce\<close> and \<open>WordPress\<close> otherwise.
\<close>

theorem detect_cms_wordpress:
  "\<not> shopify_markers r \<and> \<not> wix_markers r \<and> \<not> odoo_markers r \<and> wordpress_markers r
   \<longrightarrow> detect_cms_from_response (Some r)
       = (if py_in ''woocommerce'' (html_of r) then ''WordPress + WooCommerce''
          else ''WordPress'')"
  by (simp add: detect_cms_from_response_def marker_defs Let_def)

lemma blog_page_markers:
  "\<not> shopify_markers blog_page \<and> \<not> wix_markers blog_page \<and> \<not> odoo_markers blog_page
   \<and> wordpress_markers blog_page"
  by code_simp

theorem detect_cms_wordpress_witness:
  "detect_cms_from_response (Some blog_page) = ''WordPress + WooCommerce''"
proof -
  have w: "py_in ''woocommerce'' (html_of blog_page)" by code_simp
  from detect_cms_wordpress [of blog_page, THEN mp, OF blog_page_markers] w
  show ?thesis by simp
qed

text \<open>
  A body with a WordPress marker, \<open>woocommerce\<close> and a Shopify marker is labelled
  \<open>Shopify\<close>.
\<close>

theorem detect_cms_wordpress_counterexample:
  "wordpress_markers shop_page \<and> py_in ''woocommerce'' (html_of shop_page)
   \<and> detect_cms_from_response (Some shop_page) = ''Shopify''"
  by code_simp

text \<open>
  C10. The classifier returns one of its nine labels for every argument: no response,
  or a response whose body, headers or URL may each be \<open>None\<close>. A response with all
  three \<open>None\<close> is labelled \<open>Unknown / Custom\<close>.
\<close>

theorem detect_cms_total:
  "detect_cms_from_response resp \<in> classifier_labels
   \<and> detect_cms_from_response None = ''Unknown / No site''
   \<and> detect_cms_from_response
       (Some \<lparr>status_code = s, resp_text = None, resp_headers = None, resp_url = None\<rparr>)
     = ''Unknown / Custom''"
proof (intro conjI)
  show "detect_cms_from_response resp \<in> classifier_labels"
  proof (cases resp)
    case None
    then show ?thesis by (simp add: detect_cms_from_response_def classifier_labels_def)
  next
    case (Some r)
    then show ?thesis using detect_cms_some_labels [of r]
      unfolding classifier_labels_def by blast
  qed
next
  show "detect_cms_from_response None = ''Unknown / No site''"
    by (simp add: detect_cms_from_response_def)
next
  show "detect_cms_from_response
       (Some \<lparr>status_code = s, resp_text = None, resp_headers = None, resp_url = None\<rparr>)
     = ''Unknown / Custom''"
    by (simp add: detect_cms_from_response_def or_empty_def lower_headers_def
        get_or_empty_def py_lower_def Let_def)
qed

section \<open>Row pipeline: properties\<close>

lemma detect_cms_some_not_sentinel:
  "detect_cms_from_response (Some r) \<notin>
     {''No domain / Generic email'', ''Unknown / No site'', ''Error''}"
  using detect_cms_some_labels [of r] by auto

text \<open>
  C9. For every row: when the label is \<open>No domain / Generic email\<close>,
  \<open>Unknown / No site\<close> or \<open>Error\<close> the recorded URL is empty; and whenever the label is
  none of these, or the recorded URL is non-empty, a domain was extracted, the probe of
  that domain returned a response, the recorded URL is the final URL of that response
  and the label is its classification.
\<close>

theorem row_url_only_from_probe:
  "(fst (row_result get email) \<in> {''No domain / Generic email'', ''Unknown / No site'', ''Error''}
      \<longrightarrow> fst (snd (row_result get email)) = [])
   \<and> (fst (row_result get email) \<notin> {''No domain / Generic email'', ''Unknown / No site'', ''Error''}
        \<or> fst (snd (row_result get email)) \<noteq> []
      \<longrightarrow> (\<exists>domain r. extract_domain_from_email (Str (email_str email)) = Some domain
            \<and> snd (guess_website_url get domain)
                = Inr (Some (fst (snd (row_result get email))), Some r)
            \<and> fst (row_result get email) = detect_cms_from_response (Some r)))"
  using detect_cms_some_not_sentinel
  by (auto simp: row_result_def detect_cms_for_email_with_url_def
      split: option.splits sum.splits prod.splits)

theorem row_url_only_from_probe_witness:
  "row_result sample_net (Val ''a@gmail.com'') = (''No domain / Generic email'', [], [])
   \<and> row_result sample_net (Val ''c@shop-example.com'')
       = (''Shopify'', ''https://www.shop-example.com/'', [])
   \<and> (\<exists>domain r. extract_domain_from_email (Str (email_str (Val ''c@shop-example.com''))) = Some domain
         \<and> snd (guess_website_url sample_net domain)
             = Inr (Some ''https://www.shop-example.com/'', Some r))"
proof -
  have a: "row_result sample_net (Val ''a@gmail.com'') = (''No domain / Generic email'', [], [])"
    by code_simp
  have c: "row_result sample_net (Val ''c@shop-example.com'')
       = (''Shopify'', ''https://www.shop-example.com/'', [])"
    by code_simp
  from row_url_only_from_probe [of sample_net "Val ''c@shop-example.com''", THEN conjunct2]
  have "\<exists>domain r. extract_domain_from_email (Str (email_str (Val ''c@shop-example.com''))) = Some domain
         \<and> snd (guess_website_url sample_net domain)
             = Inr (Some ''https://www.shop-example.com/'', Some r)"
    unfolding c by auto
  with a c show ?thesis by blast
qed

text \<open>
  The row of a public-provider address is labelled \<open>No domain / Generic email\<close>, spelled
  with spaces around the slash, and no domain is extracted for it, so no probe is made.
\<close>

theorem row_url_spec_labels_counterexample:
  "row_result sample_net (Val ''a@gmail.com'') = (''No domain / Generic email'', [], [])
   \<and> ''No domain / Generic email'' \<notin> {''No domain/Generic email'', ''Unknown/No site'', ''Error''}
   \<and> extract_domain_from_email (Str (email_str (Val ''a@gmail.com''))) = None"
  by (intro conjI) (code_simp, simp, code_simp)

section \<open>Tables: facts\<close>

lemma fold_best_step:
  "fold (best_step df) ls (bc, bs) = (bc', bs') \<Longrightarrow> bc' = bc \<or> (\<exists>c \<in> set ls. bc' = Some c)"
proof (induction ls arbitrary: bc bs)
  case Nil
  then show ?case by simp
next
  case (Cons l ls)
  obtain bc1 bs1 where step: "best_step df l (bc, bs) = (bc1, bs1)" by (cases "best_step df l (bc, bs)")
  then have first: "bc1 = bc \<or> bc1 = Some l"
    by (auto simp: best_step_def split: option.splits if_splits)
  from Cons.prems step have "fold (best_step df) ls (bc1, bs1) = (bc', bs')" by simp
  from Cons.IH [OF this] first show ?case by auto
qed

lemma find_email_column_label:
  assumes "columns df \<noteq> []"
  shows "\<exists>col. find_email_column df = Inr col \<and> col \<in> set (map fst (columns df))"
proof (cases "find (\<lambda>col. py_lower (py_strip col) = ''email'') (map fst (columns df))")
  case (Some col)
  then have "col \<in> set (map fst (columns df))"
    by (auto simp: find_Some_iff)
  then show ?thesis using Some by (simp add: find_email_column_def)
next
  case None
  obtain bc bs where best: "fold (best_step df) (map fst (columns df)) (None, - 1) = (bc, bs)"
    by (cases "fold (best_step df) (map fst (columns df)) (None, - 1)")
  from fold_best_step [OF best]
  have bc: "bc = None \<or> (\<exists>c \<in> set (map fst (columns df)). bc = Some c)" .
  obtain c cs where cols: "map fst (columns df) = c # cs"
    using assms by (cases "columns df") auto
  show ?thesis using None best bc cols
    by (auto simp: find_email_column_def)
qed

lemma column_length:
  assumes "wf_df df" and "col \<in> set (map fst (columns df))"
  shows "\<exists>cells. map_of (columns df) col = Some cells \<and> length cells = nrows df"
proof -
  from assms(2) obtain cells where m: "map_of (columns df) col = Some cells"
    by (metis (no_types) map_of_eq_None_iff not_Some_eq set_map)
  then have "(col, cells) \<in> set (columns df)" by (rule map_of_SomeD)
  then have "length cells = nrows df"
    using assms(1) by (auto simp: wf_df_def list_all_iff)
  with m show ?thesis by blast
qed

lemma fold_row_step:
  "fold (row_step get) emails (a, b, c) =
     (a @ map (\<lambda>e. fst (row_result get e)) emails,
      b @ map (\<lambda>e. fst (snd (row_result get e))) emails,
      c @ map (\<lambda>e. snd (snd (row_result get e))) emails)"
  by (induction emails arbitrary: a b c) (auto simp: row_step_def split: prod.splits)

lemma map_of_replace:
  "map_of (map (\<lambda>c. if fst c = l then (l, v) else c) cols) k =
     (if k = l \<and> l \<in> set (map fst cols) then Some v else map_of cols k)"
  by (induction cols) force+

lemma map_of_append_new:
  "l \<notin> set (map fst cols) \<Longrightarrow>
     map_of (cols @ [(l, v)]) k = (if k = l then Some v else map_of cols k)"
  by (induction cols) auto

lemma setitem_ok:
  assumes "length vals = nrows df"
  shows "\<exists>df'. setitem df l vals = Inr df' \<and> nrows df' = nrows df
     \<and> map_of (columns df') l = Some (map Val vals)
     \<and> (\<forall>k. k \<noteq> l \<longrightarrow> map_of (columns df') k = map_of (columns df) k)
     \<and> (wf_df df \<longrightarrow> wf_df df')"
proof (cases "l \<in> set (map fst (columns df))")
  case True
  let ?cols = "map (\<lambda>c. if fst c = l then (l, map Val vals) else c) (columns df)"
  have keys: "map fst ?cols = map fst (columns df)" by (induction "columns df") auto
  have "setitem df l vals = Inr (df\<lparr>columns := ?cols\<rparr>)"
    using True assms by (simp add: setitem_def)
  moreover have "map_of ?cols l = Some (map Val vals)"
    using True by (simp add: map_of_replace)
  moreover have "\<forall>k. k \<noteq> l \<longrightarrow> map_of ?cols k = map_of (columns df) k"
    by (simp add: map_of_replace)
  moreover have "wf_df df \<longrightarrow> wf_df (df\<lparr>columns := ?cols\<rparr>)"
  proof
    assume wf: "wf_df df"
    have "distinct (map fst ?cols)"
      using wf unfolding keys wf_df_def by simp
    moreover have "?cols \<noteq> []" using wf by (simp add: wf_df_def)
    moreover have "list_all (\<lambda>c. length (snd c) = nrows df) ?cols"
      using wf assms by (auto simp: wf_df_def list_all_iff)
    ultimately show "wf_df (df\<lparr>columns := ?cols\<rparr>)" by (simp add: wf_df_def)
  qed
  ultimately show ?thesis by simp
next
  case False
  let ?cols = "columns df @ [(l, map Val vals)]"
  have "setitem df l vals = Inr (df\<lparr>columns := ?cols\<rparr>)"
    using False assms by (simp add: setitem_def)
  moreover have "map_of ?cols l = Some (map Val vals)"
    using False by (simp add: map_of_append_new del: map_of_append)
  moreover have "\<forall>k. k \<noteq> l \<longrightarrow> map_of ?cols k = map_of (columns df) k"
    using False by (simp add: map_of_append_new del: map_of_append)
  moreover have "wf_df df \<longrightarrow> wf_df (df\<lparr>columns := ?cols\<rparr>)"
    using False assms by (auto simp: wf_df_def list_all_iff)
  ultimately show ?thesis by simp
qed

lemma process_dataframe_columns:
  assumes wf: "wf_df df"
  shows "\<exists>email_col emails out.
     find_email_column df = Inr email_col
     \<and> map_of (columns df) email_col = Some emails
     \<and> length emails = nrows df
     \<and> process_dataframe get df = Inr out
     \<and> nrows out = nrows df \<and> wf_df out
     \<and> map_of (columns out) ''cms_detected''
         = Some (map (\<lambda>e. Val (fst (row_result get e))) emails)
     \<and> map_of (columns out) ''detected_url''
         = Some (map (\<lambda>e. Val (fst (snd (row_result get e)))) emails)
     \<and> map_of (columns out) ''error_detail''
         = Some (map (\<lambda>e. Val (snd (snd (row_result get e)))) emails)
     \<and> (\<forall>k. k \<notin> {''cms_detected'', ''detected_url'', ''error_detail''}
          \<longrightarrow> map_of (columns out) k = map_of (columns df) k)"
proof -
  have ne: "columns df \<noteq> []" using wf by (simp add: wf_df_def)
  from find_email_column_label [OF ne] obtain email_col
    where col: "find_email_column df = Inr email_col" "email_col \<in> set (map fst (columns df))"
    by blast
  from column_length [OF wf col(2)] obtain emails
    where em: "map_of (columns df) email_col = Some emails" "length emails = nrows df"
    by blast
  let ?cms = "map (\<lambda>e. fst (row_result get e)) emails"
  let ?urls = "map (\<lambda>e. fst (snd (row_result get e))) emails"
  let ?errs = "map (\<lambda>e. snd (snd (row_result get e))) emails"
  have loop: "fold (row_step get) emails ([], [], []) = (?cms, ?urls, ?errs)"
    by (simp add: fold_row_step)
  have l1: "length ?cms = nrows df" using em(2) by simp
  from setitem_ok [OF l1, of "''cms_detected''"] obtain df1 where
    d1: "setitem df ''cms_detected'' ?cms = Inr df1" "nrows df1 = nrows df"
        "map_of (columns df1) ''cms_detected'' = Some (map Val ?cms)"
        "\<forall>k. k \<noteq> ''cms_detected'' \<longrightarrow> map_of (columns df1) k = map_of (columns df) k"
        "wf_df df1"
    using wf by blast
  have l2: "length ?urls = nrows df1" using em(2) d1(2) by simp
  from setitem_ok [OF l2, of "''detected_url''"] obtain df2 where
    d2: "setitem df1 ''detected_url'' ?urls = Inr df2" "nrows df2 = nrows df1"
        "map_of (columns df2) ''detected_url'' = Some (map Val ?urls)"
        "\<forall>k. k \<noteq> ''detected_url'' \<longrightarrow> map_of (columns df2) k = map_of (columns df1) k"
        "wf_df df2"
    using d1(5) by blast
  have l3: "length ?errs = nrows df2" using em(2) d1(2) d2(2) by simp
  from setitem_ok [OF l3, of "''error_detail''"] obtain df3 where
    d3: "setitem df2 ''error_detail'' ?errs = Inr df3" "nrows df3 = nrows df2"
        "map_of (columns df3) ''error_detail'' = Some (map Val ?errs)"
        "\<forall>k. k \<noteq> ''error_detail'' \<longrightarrow> map_of (columns df3) k = map_of (columns df2) k"
        "wf_df df3"
    using d2(5) by blast
  have run: "process_dataframe get df = Inr df3"
    by (simp add: process_dataframe_def col(1) em(1) loop d1(1) d2(1) d3(1))
  have c1: "map_of (columns df3) ''cms_detected'' = Some (map Val ?cms)"
    using d1(3) d2(4) d3(4) by simp
  have c2: "map_of (columns df3) ''detected_url'' = Some (map Val ?urls)"
    using d2(3) d3(4) by simp
  have rest: "\<forall>k. k \<notin> {''cms_detected'', ''detected_url'', ''error_detail''}
          \<longrightarrow> map_of (columns df3) k = map_of (columns df) k"
    using d1(4) d2(4) d3(4) by simp
  have n: "nrows df3 = nrows df" using d1(2) d2(2) d3(2) by simp
  show ?thesis
    using col(1) em run n d3(5) c1 c2 d3(3) rest
    by (intro exI [of _ email_col] exI [of _ emails] exI [of _ df3]) (simp add: comp_def)
qed

lemma process_dataframe_appends:
  assumes c: "find_email_column df = Inr email_col"
    and e: "map_of (columns df) email_col = Some emails"
    and l: "length emails = nrows df"
    and new: "''cms_detected'' \<notin> set (map fst (columns df))"
      "''detected_url'' \<notin> set (map fst (columns df))"
      "''error_detail'' \<notin> set (map fst (columns df))"
  shows "process_dataframe get df =
     Inr (df\<lparr>columns := columns df @
       [(''cms_detected'', map (\<lambda>e. Val (fst (row_result get e))) emails),
        (''detected_url'', map (\<lambda>e. Val (fst (snd (row_result get e)))) emails),
        (''error_detail'', map (\<lambda>e. Val (snd (snd (row_result get e)))) emails)]\<rparr>)"
  using l new
  by (simp add: process_dataframe_def c e fold_row_step setitem_def comp_def)


section \<open>Tables: properties\<close>

text \<open>
  C4. For a table with at least one column, distinct labels and columns as long as the
  index, \<open>process_dataframe\<close> returns a table with the same number of rows in which
  every column is as long as the index. With the email column that
  \<open>find_email_column\<close> chooses, the columns \<open>cms_detected\<close>, \<open>detected_url\<close> and
  \<open>error_detail\<close> hold, at each position, the three values of \<open>row_result\<close> for the
  cell of the email column at that position: given the chosen column, each entry
  depends on its own row only. Every other column is unchanged, and when the table
  has none of the three labels the three columns are appended after its columns, in
  that order.
\<close>

theorem process_dataframe_rows:
  "wf_df df \<Longrightarrow>
   \<exists>email_col emails out.
     find_email_column df = Inr email_col
     \<and> map_of (columns df) email_col = Some emails
     \<and> length emails = nrows df
     \<and> process_dataframe get df = Inr out
     \<and> nrows out = nrows df \<and> wf_df out
     \<and> map_of (columns out) ''cms_detected''
         = Some (map (\<lambda>e. Val (fst (row_result get e))) emails)
     \<and> map_of (columns out) ''detected_url''
         = Some (map (\<lambda>e. Val (fst (snd (row_result get e)))) emails)
     \<and> map_of (columns out) ''error_detail''
         = Some (map (\<lambda>e. Val (snd (snd (row_result get e)))) emails)
     \<and> (\<forall>k. k \<notin> {''cms_detected'', ''detected_url'', ''error_detail''}
          \<longrightarrow> map_of (columns out) k = map_of (columns df) k)
     \<and> (''cms_detected'' \<notin> set (map fst (columns df))
          \<and> ''detected_url'' \<notin> set (map fst (columns df))
          \<and> ''error_detail'' \<notin> set (map fst (columns df))
        \<longrightarrow> columns out = columns df @
             [(''cms_detected'', map (\<lambda>e. Val (fst (row_result get e))) emails),
              (''detected_url'', map (\<lambda>e. Val (fst (snd (row_result get e)))) emails),
              (''error_detail'', map (\<lambda>e. Val (snd (snd (row_result get e)))) emails)])"
proof -
  assume wf: "wf_df df"
  from process_dataframe_columns [OF wf, of get] obtain email_col emails out where
    c: "find_email_column df = Inr email_col"
    and e: "map_of (columns df) email_col = Some emails"
    and l: "length emails = nrows df"
    and p: "process_dataframe get df = Inr out"
    and n: "nrows out = nrows df" and w: "wf_df out"
    and c1: "map_of (columns out) ''cms_detected''
         = Some (map (\<lambda>e. Val (fst (row_result get e))) emails)"
    and c2: "map_of (columns out) ''detected_url''
         = Some (map (\<lambda>e. Val (fst (snd (row_result get e)))) emails)"
    and c3: "map_of (columns out) ''error_detail''
         = Some (map (\<lambda>e. Val (snd (snd (row_result get e)))) emails)"
    and rest: "\<forall>k. k \<notin> {''cms_detected'', ''detected_url'', ''error_detail''}
          \<longrightarrow> map_of (columns out) k = map_of (columns df) k"
    by (elim exE conjE)
  have app: "''cms_detected'' \<notin> set (map fst (columns df))
          \<and> ''detected_url'' \<notin> set (map fst (columns df))
          \<and> ''error_detail'' \<notin> set (map fst (columns df))
        \<longrightarrow> columns out = columns df @
             [(''cms_detected'', map (\<lambda>e. Val (fst (row_result get e))) emails),
              (''detected_url'', map (\<lambda>e. Val (fst (snd (row_result get e)))) emails),
              (''error_detail'', map (\<lambda>e. Val (snd (snd (row_result get e)))) emails)]"
  proof
    assume new: "''cms_detected'' \<notin> set (map fst (columns df))
          \<and> ''detected_url'' \<notin> set (map fst (columns df))
          \<and> ''error_detail'' \<notin> set (map fst (columns df))"
    from process_dataframe_appends [OF c e l, of get] new p
    have "out = df\<lparr>columns := columns df @
       [(''cms_detected'', map (\<lambda>e. Val (fst (row_result get e))) emails),
        (''detected_url'', map (\<lambda>e. Val (fst (snd (row_result get e)))) emails),
        (''error_detail'', map (\<lambda>e. Val (snd (snd (row_result get e)))) emails)]\<rparr>"
      by simp
    then show "columns out = columns df @
             [(''cms_detected'', map (\<lambda>e. Val (fst (row_result get e))) emails),
              (''detected_url'', map (\<lambda>e. Val (fst (snd (row_result get e)))) emails),
              (''error_detail'', map (\<lambda>e. Val (snd (snd (row_result get e)))) emails)]"
      by simp
  qed
  show ?thesis
    apply (rule exI [of _ email_col], rule exI [of _ emails], rule exI [of _ out])
    apply (intro conjI c e l p n w c1 c2 c3 rest app)
    done
qed


lemma sample_df_wf: "wf_df sample_df"
  by (simp add: wf_df_def sample_df_def)

lemma sample_df_nrows: "nrows sample_df = 5"
  by (simp add: sample_df_def)

lemma sample_df_email_column: "find_email_column sample_df = Inr '' Email ''"
  by code_simp

lemma sample_df_emails:
  "map_of (columns sample_df) '' Email ''
     = Some [Val ''a@gmail.com'', Val '' x@boom.example.org'', NA,
             Val ''c@shop-example.com'', Val ''b@example.com'']"
  by (simp add: sample_df_def)

lemma sample_rows:
  "row_result sample_net (Val ''a@gmail.com'') = (''No domain / Generic email'', [], [])"
  "row_result sample_net (Val '' x@boom.example.org'')
     = (''Error'', [], ''UnicodeError: label too long'')"
  "row_result sample_net NA = (''No domain / Generic email'', [], [])"
  "row_result sample_net (Val ''c@shop-example.com'')
     = (''Shopify'', ''https://www.shop-example.com/'', [])"
  "row_result sample_net (Val ''b@example.com'') = (''Unknown / No site'', [], [])"
  by code_simp+

theorem process_dataframe_rows_witness:
  "\<exists>out. process_dataframe sample_net sample_df = Inr out
     \<and> nrows out = 5
     \<and> map_of (columns out) ''cms_detected''
         = Some [Val ''No domain / Generic email'', Val ''Error'',
                 Val ''No domain / Generic email'', Val ''Shopify'',
                 Val ''Unknown / No site'']
     \<and> map_of (columns out) ''detected_url''
         = Some [Val [], Val [], Val [], Val ''https://www.shop-example.com/'', Val []]"
proof -
  from process_dataframe_rows [OF sample_df_wf, of sample_net]
  obtain email_col emails out where
    c: "find_email_column sample_df = Inr email_col"
    and e: "map_of (columns sample_df) email_col = Some emails"
    and p: "process_dataframe sample_net sample_df = Inr out"
    and n: "nrows out = nrows sample_df"
    and cms: "map_of (columns out) ''cms_detected''
         = Some (map (\<lambda>e. Val (fst (row_result sample_net e))) emails)"
    and urls: "map_of (columns out) ''detected_url''
         = Some (map (\<lambda>e. Val (fst (snd (row_result sample_net e)))) emails)"
    by (elim exE conjE)
  have col: "email_col = '' Email ''" using c by (simp add: sample_df_email_column)
  have em: "emails = [Val ''a@gmail.com'', Val '' x@boom.example.org'', NA,
             Val ''c@shop-example.com'', Val ''b@example.com'']"
    using e unfolding col by (simp add: sample_df_emails)
  have n5: "nrows out = 5" using n by (simp add: sample_df_nrows)
  have cms': "map_of (columns out) ''cms_detected''
         = Some [Val ''No domain / Generic email'', Val ''Error'',
                 Val ''No domain / Generic email'', Val ''Shopify'',
                 Val ''Unknown / No site'']"
    unfolding cms em by (simp only: list.map sample_rows fst_conv snd_conv)
  have urls': "map_of (columns out) ''detected_url''
         = Some [Val [], Val [], Val [], Val ''https://www.shop-example.com/'', Val []]"
    unfolding urls em by (simp only: list.map sample_rows fst_conv snd_conv)
  show ?thesis
    by (rule exI [of _ out]) (intro conjI p n5 cms' urls')
qed

text \<open>
  The email column is chosen from the cells of all rows. The two sample tables have
  the same first row; the second row makes the choice fall on column \<open>a\<close> in one and
  on column \<open>b\<close> in the other, and the first row is labelled differently in the two
  results. On the table without columns the function raises.
\<close>

theorem process_dataframe_column_choice_counterexample:
  "wf_df table_a \<and> wf_df table_b
   \<and> df_row table_a 0 = df_row table_b 0
   \<and> cms_column sample_net table_a = Some [Val ''Shopify'', Val ''Unknown / No site'']
   \<and> cms_column sample_net table_b
       = Some [Val ''Unknown / No site'', Val ''Unknown / No site'']
   \<and> process_dataframe sample_net empty_table
       = Inl (Exn ''IndexError'' ''index 0 is out of bounds for axis 0 with size 0'')"
proof (intro conjI)
  show "wf_df table_a" by (simp add: wf_df_def table_a_def)
  show "wf_df table_b" by (simp add: wf_df_def table_b_def)
  show "df_row table_a 0 = df_row table_b 0"
    by (simp add: df_row_def table_a_def table_b_def)
  show "cms_column sample_net table_a = Some [Val ''Shopify'', Val ''Unknown / No site'']"
    by code_simp
  show "cms_column sample_net table_b
       = Some [Val ''Unknown / No site'', Val ''Unknown / No site'']"
    by code_simp
  show "process_dataframe sample_net empty_table
       = Inl (Exn ''IndexError'' ''index 0 is out of bounds for axis 0 with size 0'')"
    by (simp add: empty_table_def process_dataframe_def find_email_column_def)
qed

text \<open>
  C5. For a table as above and every row \<open>i\<close>: when processing the email cell raises
  an exception \<open>e\<close>, the row gets the label \<open>Error\<close>, an empty URL and the detail
  \<open>kind: message\<close> of \<open>e\<close>, which is not empty; when it returns a label and a URL,
  the row gets these and an empty detail. All rows are processed in either case.
\<close>

theorem process_dataframe_row_errors:
  "wf_df df \<Longrightarrow>
   \<exists>email_col emails out cms urls errs.
     find_email_column df = Inr email_col
     \<and> map_of (columns df) email_col = Some emails
     \<and> process_dataframe get df = Inr out
     \<and> map_of (columns out) ''cms_detected'' = Some cms
     \<and> map_of (columns out) ''detected_url'' = Some urls
     \<and> map_of (columns out) ''error_detail'' = Some errs
     \<and> length emails = nrows df \<and> length cms = nrows df
     \<and> length urls = nrows df \<and> length errs = nrows df
     \<and> (\<forall>i<nrows df.
          (\<forall>e. detect_cms_for_email_with_url get (emails ! i) = Inl e
             \<longrightarrow> cms ! i = Val ''Error'' \<and> urls ! i = Val []
                 \<and> errs ! i = Val (exn_kind e @ '': '' @ exn_message e)
                 \<and> exn_kind e @ '': '' @ exn_message e \<noteq> [])
          \<and> (\<forall>label url. detect_cms_for_email_with_url get (emails ! i) = Inr (label, url)
             \<longrightarrow> cms ! i = Val label \<and> urls ! i = Val url \<and> errs ! i = Val []))"
proof -
  assume wf: "wf_df df"
  from process_dataframe_columns [OF wf, of get] obtain email_col emails out where
    c: "find_email_column df = Inr email_col"
    and e: "map_of (columns df) email_col = Some emails"
    and l: "length emails = nrows df"
    and p: "process_dataframe get df = Inr out"
    and c1: "map_of (columns out) ''cms_detected''
         = Some (map (\<lambda>e. Val (fst (row_result get e))) emails)"
    and c2: "map_of (columns out) ''detected_url''
         = Some (map (\<lambda>e. Val (fst (snd (row_result get e)))) emails)"
    and c3: "map_of (columns out) ''error_detail''
         = Some (map (\<lambda>e. Val (snd (snd (row_result get e)))) emails)"
    by (elim exE conjE)
  let ?cms = "map (\<lambda>e. Val (fst (row_result get e))) emails"
  let ?urls = "map (\<lambda>e. Val (fst (snd (row_result get e)))) emails"
  let ?errs = "map (\<lambda>e. Val (snd (snd (row_result get e)))) emails"
  have rows: "\<forall>i<nrows df.
          (\<forall>e. detect_cms_for_email_with_url get (emails ! i) = Inl e
             \<longrightarrow> ?cms ! i = Val ''Error'' \<and> ?urls ! i = Val []
                 \<and> ?errs ! i = Val (exn_kind e @ '': '' @ exn_message e)
                 \<and> exn_kind e @ '': '' @ exn_message e \<noteq> [])
          \<and> (\<forall>label url. detect_cms_for_email_with_url get (emails ! i) = Inr (label, url)
             \<longrightarrow> ?cms ! i = Val label \<and> ?urls ! i = Val url \<and> ?errs ! i = Val [])"
    using l by (simp add: row_result_def)
  have lens: "length ?cms = nrows df" "length ?urls = nrows df" "length ?errs = nrows df"
    using l by simp_all
  show ?thesis
    apply (rule exI [of _ email_col], rule exI [of _ emails], rule exI [of _ out])
    apply (rule exI [of _ ?cms], rule exI [of _ ?urls], rule exI [of _ ?errs])
    apply (intro conjI c e p c1 c2 c3 l lens rows)
    done
qed

lemma sample_boom:
  "detect_cms_for_email_with_url sample_net (Val '' x@boom.example.org'')
      = Inl (Exn ''UnicodeError'' ''label too long'')"
  by code_simp

lemma sample_shop:
  "detect_cms_for_email_with_url sample_net (Val ''c@shop-example.com'')
      = Inr (''Shopify'', ''https://www.shop-example.com/'')"
  by code_simp

theorem process_dataframe_row_errors_witness:
  "\<exists>out cms errs. process_dataframe sample_net sample_df = Inr out
     \<and> map_of (columns out) ''cms_detected'' = Some cms
     \<and> map_of (columns out) ''error_detail'' = Some errs
     \<and> cms ! 1 = Val ''Error'' \<and> errs ! 1 = Val ''UnicodeError: label too long''
     \<and> cms ! 3 = Val ''Shopify'' \<and> errs ! 3 = Val []"
proof -
  from process_dataframe_row_errors [OF sample_df_wf, of sample_net]
  obtain email_col emails out cms urls errs where
    c: "find_email_column sample_df = Inr email_col"
    and e: "map_of (columns sample_df) email_col = Some emails"
    and p: "process_dataframe sample_net sample_df = Inr out"
    and c1: "map_of (columns out) ''cms_detected'' = Some cms"
    and c3: "map_of (columns out) ''error_detail'' = Some errs"
    and rows: "\<forall>i<nrows sample_df.
          (\<forall>e. detect_cms_for_email_with_url sample_net (emails ! i) = Inl e
             \<longrightarrow> cms ! i = Val ''Error'' \<and> urls ! i = Val []
                 \<and> errs ! i = Val (exn_kind e @ '': '' @ exn_message e)
                 \<and> exn_kind e @ '': '' @ exn_message e \<noteq> [])
          \<and> (\<forall>label url. detect_cms_for_email_with_url sample_net (emails ! i) = Inr (label, url)
             \<longrightarrow> cms ! i = Val label \<and> urls ! i = Val url \<and> errs ! i = Val [])"
    by (elim exE conjE)
  have col: "email_col = '' Email ''" using c by (simp add: sample_df_email_column)
  have em: "emails = [Val ''a@gmail.com'', Val '' x@boom.example.org'', NA,
             Val ''c@shop-example.com'', Val ''b@example.com'']"
    using e unfolding col by (simp add: sample_df_emails)
  have i1: "(1::nat) < nrows sample_df" and i3: "(3::nat) < nrows sample_df"
    by (simp_all add: sample_df_nrows)
  have e1: "emails ! 1 = Val '' x@boom.example.org''" unfolding em by simp
  have e3: "emails ! 3 = Val ''c@shop-example.com''" unfolding em by simp
  have r1: "cms ! 1 = Val ''Error'' \<and> errs ! 1 = Val ''UnicodeError: label too long''"
    using rows [rule_format, OF i1, THEN conjunct1, rule_format,
        of "Exn ''UnicodeError'' ''label too long''"] sample_boom
    unfolding e1 by simp
  have r3: "cms ! 3 = Val ''Shopify'' \<and> errs ! 3 = Val []"
    using rows [rule_format, OF i3, THEN conjunct2, rule_format,
        of "''Shopify''" "''https://www.shop-example.com/''"] sample_shop
    unfolding e3 by simp
  show ?thesis
    apply (rule exI [of _ out], rule exI [of _ cms], rule exI [of _ errs])
    using p c1 c3 r1 r3 apply simp
    done
qed

section \<open>File to file: properties\<close>

lemma py_endswith_iff: "py_endswith s suf \<longleftrightarrow> (\<exists>stem. s = stem @ suf)"
proof
  assume "py_endswith s suf"
  then have "s = take (length s - length suf) s @ suf"
    by (metis append_take_drop_id py_endswith_def)
  then show "\<exists>stem. s = stem @ suf" by blast
next
  assume "\<exists>stem. s = stem @ suf"
  then show "py_endswith s suf" by (auto simp: py_endswith_def)
qed

lemma xlsx_extension_iff:
  "py_endswith (py_lower p) ''.xlsx'' \<longleftrightarrow> (\<exists>stem ext. p = stem @ ext \<and> py_lower ext = ''.xlsx'')"
proof
  assume e: "py_endswith (py_lower p) ''.xlsx''"
  let ?k = "length p - 5"
  have "py_lower (drop ?k p) = drop ?k (py_lower p)" by (simp add: py_lower_def drop_map)
  also have "\<dots> = ''.xlsx''"
    using e by (simp add: py_endswith_def py_lower_def eval_nat_numeral)
  finally have "p = take ?k p @ drop ?k p \<and> py_lower (drop ?k p) = ''.xlsx''" by simp
  then show "\<exists>stem ext. p = stem @ ext \<and> py_lower ext = ''.xlsx''" by blast
next
  assume "\<exists>stem ext. p = stem @ ext \<and> py_lower ext = ''.xlsx''"
  then obtain stem ext where "p = stem @ ext" "py_lower ext = ''.xlsx''" by blast
  then have "py_lower p = py_lower stem @ ''.xlsx''" by (simp add: py_lower_def)
  then show "py_endswith (py_lower p) ''.xlsx''" using py_endswith_iff by blast
qed

lemma xlsx_stem:
  assumes "p = stem @ ext" and "py_lower ext = ''.xlsx''"
  shows "take (length p - 5) p = stem"
proof -
  have "length (py_lower ext) = 5" using assms(2) by simp
  then have "length ext = 5" by (simp add: py_lower_def)
  then show ?thesis using assms(1) by simp
qed

lemma process_dataframe_returns:
  "wf_df df \<Longrightarrow> \<exists>df_out. process_dataframe get df = Inr df_out"
proof -
  assume "wf_df df"
  from process_dataframe_columns [OF this, of get] obtain out
    where "process_dataframe get df = Inr out" by (elim exE conjE)
  then show ?thesis by (rule exI)
qed

text \<open>
  C6. When \<open>read_excel\<close> gives a table as above at the input path and no output path
  is passed, the output path is the input path with a final \<open>.xlsx\<close>, in any letter
  case, replaced by \<open>_with_cms.xlsx\<close>, and otherwise the input path followed by
  \<open>_with_cms.xlsx\<close>. When the write at that path succeeds the augmented table is
  stored there and the path is returned; when the write raises, the function raises
  that exception.
\<close>

theorem process_excel_output_path:
  "fs input_path = Inr df \<and> wf_df df \<longrightarrow>
   (\<exists>df_out out.
      process_dataframe get df = Inr df_out
      \<and> (\<forall>stem ext. input_path = stem @ ext \<and> py_lower ext = ''.xlsx''
           \<longrightarrow> out = stem @ ''_with_cms.xlsx'')
      \<and> ((\<nexists>stem ext. input_path = stem @ ext \<and> py_lower ext = ''.xlsx'')
           \<longrightarrow> out = input_path @ ''_with_cms.xlsx'')
      \<and> (to_excel out = None
           \<longrightarrow> process_excel get to_excel fs input_path None
               = Inr (fs(out := Inr df_out), out))
      \<and> (\<forall>e. to_excel out = Some e
           \<longrightarrow> process_excel get to_excel fs input_path None = Inl e))"
proof
  assume h: "fs input_path = Inr df \<and> wf_df df"
  then have wf: "wf_df df" and f: "fs input_path = Inr df" by simp_all
  from process_dataframe_returns [OF wf, of get] obtain df_out
    where run: "process_dataframe get df = Inr df_out" by (elim exE)
  let ?out = "if py_endswith (py_lower input_path) ''.xlsx''
     then take (length input_path - 5) input_path @ ''_with_cms.xlsx''
     else input_path @ ''_with_cms.xlsx''"
  have ok: "to_excel ?out = None
      \<longrightarrow> process_excel get to_excel fs input_path None = Inr (fs(?out := Inr df_out), ?out)"
    using f run by (simp add: process_excel_def Let_def)
  have bad: "\<forall>e. to_excel ?out = Some e
      \<longrightarrow> process_excel get to_excel fs input_path None = Inl e"
    using f run by (simp add: process_excel_def Let_def)
  have a: "\<forall>stem ext. input_path = stem @ ext \<and> py_lower ext = ''.xlsx''
           \<longrightarrow> ?out = stem @ ''_with_cms.xlsx''"
  proof (intro allI impI)
    fix stem ext
    assume se: "input_path = stem @ ext \<and> py_lower ext = ''.xlsx''"
    then have e: "py_endswith (py_lower input_path) ''.xlsx''"
      using xlsx_extension_iff by blast
    have "take (length input_path - 5) input_path = stem"
      using se xlsx_stem by blast
    then show "?out = stem @ ''_with_cms.xlsx''" using e by simp
  qed
  have b: "(\<nexists>stem ext. input_path = stem @ ext \<and> py_lower ext = ''.xlsx'')
           \<longrightarrow> ?out = input_path @ ''_with_cms.xlsx''"
  proof
    assume "\<nexists>stem ext. input_path = stem @ ext \<and> py_lower ext = ''.xlsx''"
    then have "\<not> py_endswith (py_lower input_path) ''.xlsx''"
      using xlsx_extension_iff [of input_path] by blast
    then show "?out = input_path @ ''_with_cms.xlsx''" by simp
  qed
  show "\<exists>df_out out.
      process_dataframe get df = Inr df_out
      \<and> (\<forall>stem ext. input_path = stem @ ext \<and> py_lower ext = ''.xlsx''
           \<longrightarrow> out = stem @ ''_with_cms.xlsx'')
      \<and> ((\<nexists>stem ext. input_path = stem @ ext \<and> py_lower ext = ''.xlsx'')
           \<longrightarrow> out = input_path @ ''_with_cms.xlsx'')
      \<and> (to_excel out = None
           \<longrightarrow> process_excel get to_excel fs input_path None
               = Inr (fs(out := Inr df_out), out))
      \<and> (\<forall>e. to_excel out = Some e
           \<longrightarrow> process_excel get to_excel fs input_path None = Inl e)"
    apply (rule exI [of _ df_out], rule exI [of _ ?out])
    apply (intro conjI run a b ok bad)
    done
qed

theorem process_excel_output_path_witness:
  "returned_path (process_excel sample_net writes_all sample_disk ''Leads.XLSX'' None)
     = Inr ''Leads_with_cms.xlsx''"
proof -
  have h: "sample_disk ''Leads.XLSX'' = Inr sample_df \<and> wf_df sample_df"
    using sample_df_wf by (simp add: sample_disk_def)
  from process_excel_output_path
    [of sample_disk "''Leads.XLSX''" sample_df sample_net writes_all, THEN mp, OF h]
  obtain df_out out where
    a: "\<forall>stem ext. ''Leads.XLSX'' = stem @ ext \<and> py_lower ext = ''.xlsx''
           \<longrightarrow> out = stem @ ''_with_cms.xlsx''"
    and ok: "writes_all out = None
      \<longrightarrow> process_excel sample_net writes_all sample_disk ''Leads.XLSX'' None
          = Inr (sample_disk(out := Inr df_out), out)"
    by (elim exE conjE)
  have l: "py_lower ''.XLSX'' = ''.xlsx''" by code_simp
  have s: "''Leads.XLSX'' = ''Leads'' @ ''.XLSX''" by simp
  have "out = ''Leads'' @ ''_with_cms.xlsx''"
    using a [rule_format, of "''Leads''" "''.XLSX''"] l s by blast
  then have o: "out = ''Leads_with_cms.xlsx''" by simp
  have "process_excel sample_net writes_all sample_disk ''Leads.XLSX'' None
          = Inr (sample_disk(out := Inr df_out), out)"
    using ok by (simp add: writes_all_def)
  then show ?thesis by (simp add: returned_path_def o)
qed

text \<open>
  For an input name without extension the output name ends in \<open>_with_cms.xlsx\<close>, not
  in \<open>_with_cms\<close>. For a sheet without columns, and for a path that cannot be written,
  the function raises and returns no path.
\<close>

theorem process_excel_suffix_counterexample:
  "returned_path (process_excel sample_net writes_all sample_disk ''data'' None)
     = Inr ''data_with_cms.xlsx''
   \<and> ''data_with_cms.xlsx'' \<noteq> ''data'' @ ''_with_cms''
   \<and> process_excel sample_net writes_all sample_disk ''empty.xlsx'' None
     = Inl (Exn ''IndexError'' ''index 0 is out of bounds for axis 0 with size 0'')
   \<and> process_excel sample_net writes_nothing sample_disk ''data'' None
     = Inl (Exn ''PermissionError'' ''Permission denied'')"
proof -
  have e: "\<not> py_endswith (py_lower ''data'') ''.xlsx''" by code_simp
  from process_dataframe_returns [OF sample_df_wf, of sample_net] obtain df_out
    where run: "process_dataframe sample_net sample_df = Inr df_out" by (elim exE)
  have 1: "returned_path (process_excel sample_net writes_all sample_disk ''data'' None)
     = Inr ''data_with_cms.xlsx''"
    using e by (simp add: process_excel_def run Let_def sample_disk_def writes_all_def
        returned_path_def)
  have 2: "process_excel sample_net writes_all sample_disk ''empty.xlsx'' None
     = Inl (Exn ''IndexError'' ''index 0 is out of bounds for axis 0 with size 0'')"
    by (simp add: process_excel_def sample_disk_def empty_table_def process_dataframe_def
        find_email_column_def)
  have 3: "process_excel sample_net writes_nothing sample_disk ''data'' None
     = Inl (Exn ''PermissionError'' ''Permission denied'')"
    using e by (simp add: process_excel_def run Let_def sample_disk_def writes_nothing_def)
  from 1 2 3 show ?thesis by simp
qed

end
